theory Spec2Isabelle
  imports Main
begin

section \<open>Strings, bytes and exceptions\<close>

text \<open>
  A Python \<open>str\<close> is represented by its UTF-8 encoding and \<open>bytes\<close> by themselves, both
  as \<^typ>\<open>string\<close>.  Every separator the program splits, strips or matches on is ASCII
  (newline, dot, colon, blank, tab), and an ASCII byte never occurs inside a multi-byte
  UTF-8 sequence, so these operations act on the encoding exactly as they act on the
  code points.  \<open>bytes.decode("utf-8")\<close> is then a well-formedness check.
\<close>

datatype py_error =
    ValueError | TypeError | IndexError | KeyError | AttributeError
  | UnicodeDecodeError | BadZipFile | PreconditionFailed "(string \<times> string) list"
  | ReadTimeout | ConnectTimeout | ConnectionError

definition is_digit :: "char \<Rightarrow> bool" where
  "is_digit c = (c \<in> set ''0123456789'')"

definition is_nonzero_digit :: "char \<Rightarrow> bool" where
  "is_nonzero_digit c = (c \<in> set ''123456789'')"

definition is_hex_lower :: "char \<Rightarrow> bool" where
  "is_hex_lower c = (c \<in> set ''0123456789abcdef'')"

definition is_lower :: "char \<Rightarrow> bool" where
  "is_lower c = (c \<in> set ''abcdefghijklmnopqrstuvwxyz'')"

definition newline :: char where
  "newline = CHR 0x0A"

text \<open>
  The regular-expression anchor \<open>$\<close> (without \<open>re.MULTILINE\<close>) matches at the end of the
  string and also just before a newline that is the last character of the string.
\<close>

definition at_dollar :: "string \<Rightarrow> bool" where
  "at_dollar rest = (rest = [] \<or> rest = [newline])"

text \<open>\<open>str.split(sep)\<close> for a one-character separator: never returns an empty list.\<close>

fun split_sep :: "char \<Rightarrow> string \<Rightarrow> string list" where
  "split_sep sep [] = [[]]"
| "split_sep sep (c # cs) =
     (if c = sep then [] # split_sep sep cs
      else (case split_sep sep cs of
              [] \<Rightarrow> [[c]]
            | p # ps \<Rightarrow> (c # p) # ps))"

text \<open>\<open>sep.join(parts)\<close>.\<close>

fun join :: "string \<Rightarrow> string list \<Rightarrow> string" where
  "join sep [] = []"
| "join sep [p] = p"
| "join sep (p # q # ps) = p @ sep @ join sep (q # ps)"

text \<open>\<open>str.strip(chars)\<close>: drops leading and trailing characters that are in \<open>chars\<close>.\<close>

definition strip :: "string \<Rightarrow> string \<Rightarrow> string" where
  "strip chars s =
     rev (dropWhile (\<lambda>c. c \<in> set chars) (rev (dropWhile (\<lambda>c. c \<in> set chars) s)))"

text \<open>Decimal digits of a natural number, as \<open>str(n)\<close> and an f-string print them.\<close>

definition str_digit :: "nat \<Rightarrow> char" where
  "str_digit d = ''0123456789'' ! (d mod 10)"

fun str_nat :: "nat \<Rightarrow> string" where
  "str_nat n = (if n < 10 then [str_digit n] else str_nat (n div 10) @ [str_digit (n mod 10)])"

declare str_nat.simps [simp del]

definition digit_val :: "char \<Rightarrow> nat" where
  "digit_val c = of_char c - 48"

definition nat_of_digits :: "string \<Rightarrow> nat" where
  "nat_of_digits ds = foldl (\<lambda>a c. 10 * a + digit_val c) 0 ds"

text \<open>
  \<open>int(part)\<close> for the strings that reach it in \<open>is_valid_version\<close>: \<open>int\<close> strips
  surrounding whitespace and raises \<open>ValueError\<close> on the empty string and on anything that
  is not a number.  Signs and underscores, which \<open>int\<close> also reads, cannot occur in a
  component of a string that matched \<open>VERSION_PATTERN\<close>; on them this model raises.  The
  interpreter's limit on the number of digits \<open>int\<close> converts (4300 by default) is not
  modelled.
\<close>

definition py_whitespace :: string where
  "py_whitespace = [CHR '' '', CHR 0x09, CHR 0x0A, CHR 0x0B, CHR 0x0C, CHR 0x0D]"

definition py_int :: "string \<Rightarrow> py_error + nat" where
  "py_int s =
     (let t = strip py_whitespace s
      in if t \<noteq> [] \<and> list_all is_digit t then Inr (nat_of_digits t) else Inl ValueError)"

text \<open>
  \<open>bytes.decode("utf-8")\<close> in strict mode: the well-formed byte sequences of the Unicode
  standard (no overlong forms, no surrogates, nothing above \<open>U+10FFFF\<close>); anything else
  raises \<open>UnicodeDecodeError\<close>.
\<close>

definition continuation :: "nat \<Rightarrow> bool" where
  "continuation b = (0x80 \<le> b \<and> b \<le> 0xBF)"

fun utf8_wellformed :: "nat list \<Rightarrow> bool" where
  "utf8_wellformed [] = True"
| "utf8_wellformed [b] = (b < 0x80)"
| "utf8_wellformed [b, b1] =
     (if b < 0x80 then utf8_wellformed [b1]
      else 0xC2 \<le> b \<and> b \<le> 0xDF \<and> continuation b1)"
| "utf8_wellformed [b, b1, b2] =
     (if b < 0x80 then utf8_wellformed [b1, b2]
      else if 0xC2 \<le> b \<and> b \<le> 0xDF then continuation b1 \<and> utf8_wellformed [b2]
      else if b = 0xE0 then 0xA0 \<le> b1 \<and> b1 \<le> 0xBF \<and> continuation b2
      else if b = 0xED then 0x80 \<le> b1 \<and> b1 \<le> 0x9F \<and> continuation b2
      else 0xE1 \<le> b \<and> b \<le> 0xEF \<and> continuation b1 \<and> continuation b2)"
| "utf8_wellformed (b # b1 # b2 # b3 # bs) =
     (if b < 0x80 then utf8_wellformed (b1 # b2 # b3 # bs)
      else if 0xC2 \<le> b \<and> b \<le> 0xDF then continuation b1 \<and> utf8_wellformed (b2 # b3 # bs)
      else if b = 0xE0 then
        0xA0 \<le> b1 \<and> b1 \<le> 0xBF \<and> continuation b2 \<and> utf8_wellformed (b3 # bs)
      else if b = 0xED then
        0x80 \<le> b1 \<and> b1 \<le> 0x9F \<and> continuation b2 \<and> utf8_wellformed (b3 # bs)
      else if 0xE1 \<le> b \<and> b \<le> 0xEF then
        continuation b1 \<and> continuation b2 \<and> utf8_wellformed (b3 # bs)
      else if b = 0xF0 then
        0x90 \<le> b1 \<and> b1 \<le> 0xBF \<and> continuation b2 \<and> continuation b3 \<and> utf8_wellformed bs
      else if b = 0xF4 then
        0x80 \<le> b1 \<and> b1 \<le> 0x8F \<and> continuation b2 \<and> continuation b3 \<and> utf8_wellformed bs
      else 0xF1 \<le> b \<and> b \<le> 0xF3 \<and> continuation b1 \<and> continuation b2 \<and> continuation b3
           \<and> utf8_wellformed bs)"

definition utf8_valid :: "string \<Rightarrow> bool" where
  "utf8_valid bs = utf8_wellformed (map of_char bs)"

definition decode_utf8 :: "string \<Rightarrow> py_error + string" where
  "decode_utf8 bs = (if utf8_valid bs then Inr bs else Inl UnicodeDecodeError)"

section \<open>Validation (versions.py)\<close>

text \<open>
  \<open>VERSION_PATTERN = ^[1-9]\d*\.\d*\.[1-9]\d*\.\d*$\<close>.  A digit run is followed by a
  literal dot, so greedy matching never backtracks: each component is the maximal run
  of digits.  \<open>\d\<close> is modelled on ASCII digits, so the model is that of the code on
  strings whose decimal digits are ASCII.  On a string with another Unicode decimal digit
  Python's pattern can match where the model's does not; the code then goes on to \<open>int\<close>
  and to the comparison with the f-string, which prints ASCII digits only, and returns
  \<open>False\<close> or, on an empty component, raises.  The strings accepted are the same.
\<close>

definition match_dot :: "string \<Rightarrow> string option" where
  "match_dot s = (case s of [] \<Rightarrow> None | c # cs \<Rightarrow> if c = CHR ''.'' then Some cs else None)"

definition match_nonzero_run :: "string \<Rightarrow> string option" where
  "match_nonzero_run s =
     (case s of [] \<Rightarrow> None
      | c # cs \<Rightarrow> if is_nonzero_digit c then Some (dropWhile is_digit cs) else None)"

definition match_digit_run :: "string \<Rightarrow> string option" where
  "match_digit_run s = Some (dropWhile is_digit s)"

definition VERSION_PATTERN_match :: "string \<Rightarrow> bool" where
  "VERSION_PATTERN_match version =
     (case Option.bind (Option.bind (Option.bind (Option.bind (Option.bind (Option.bind
            (match_nonzero_run version) match_dot) match_digit_run) match_dot)
            match_nonzero_run) match_dot) match_digit_run of
        None \<Rightarrow> False
      | Some rest \<Rightarrow> at_dollar rest)"

text \<open>
  \<open>is_valid_version\<close>: \<open>Inl\<close> is the exception the call raises.  The four-name unpacking
  raises \<open>ValueError\<close> unless the split has exactly four parts.
\<close>

fun py_int_all :: "string list \<Rightarrow> py_error + nat list" where
  "py_int_all [] = Inr []"
| "py_int_all (p # ps) =
     (case py_int p of
        Inl e \<Rightarrow> Inl e
      | Inr n \<Rightarrow> (case py_int_all ps of Inl e \<Rightarrow> Inl e | Inr ns \<Rightarrow> Inr (n # ns)))"

definition version_string :: "nat \<Rightarrow> nat \<Rightarrow> nat \<Rightarrow> nat \<Rightarrow> string" where
  "version_string major minor build patch =
     str_nat major @ ''.'' @ str_nat minor @ ''.'' @ str_nat build @ ''.'' @ str_nat patch"

definition is_valid_version :: "string \<Rightarrow> py_error + bool" where
  "is_valid_version version =
     (if \<not> VERSION_PATTERN_match version then Inr False
      else (case py_int_all (split_sep (CHR ''.'') version) of
              Inl e \<Rightarrow> Inl e
            | Inr [major, minor, build, patch] \<Rightarrow>
                Inr (version = version_string major minor build patch)
            | Inr _ \<Rightarrow> Inl ValueError))"

text \<open>
  \<open>is_valid_revision\<close>: \<open>re.match(r"^[0-9a-f]{%s}$" % length, revision) is not None\<close>.
  The call cannot raise on a string.
\<close>

definition is_valid_revision :: "string \<Rightarrow> nat \<Rightarrow> bool" where
  "is_valid_revision revision len =
     (len \<le> length revision \<and> list_all is_hex_lower (take len revision)
      \<and> at_dollar (drop len revision))"

section \<open>The provider protocol and the pipeline (pipelines.py)\<close>

text \<open>
  What \<open>BaseProvider.retrieve\<close> returns: the content itself, or one of the two sentinel
  objects.  In the program the union is untagged; the constructor \<open>Content\<close> stands for
  "any value that is neither sentinel".
\<close>

datatype 'c response = Content 'c | DOES_NOT_EXIST | CONTINUE_SEARCH

text \<open>
  A provider object: its identity (what \<open>provider == self\<close> compares, since no provider
  class defines \<open>__eq__\<close>) and its two methods, acting on the state \<open>'s\<close> of everything the
  providers can read or write (their own caches, the buckets).  The methods are those of
  the typed interface and return normally; the pipeline has no exception handler, so a
  method that raises ends the whole request.
\<close>

record ('p, 'c, 's) provider =
  ident :: nat
  retrieve :: "'p \<Rightarrow> 's \<Rightarrow> 'c response \<times> 's"
  process_response :: "nat option \<Rightarrow> 'p \<Rightarrow> 'c option \<Rightarrow> 's \<Rightarrow> 's"

text \<open>
  The calls the pipeline makes, in the order it makes them: the index of the provider
  called, the arguments, and for \<open>retrieve\<close> what the call returned.
\<close>

datatype ('p, 'c) call =
    Retrieve nat 'p "'c response"
  | ProcessResponse nat "nat option" 'p "'c option"

definition is_continue :: "'c response \<Rightarrow> bool" where
  "is_continue r = (case r of CONTINUE_SEARCH \<Rightarrow> True | _ \<Rightarrow> False)"

text \<open>
  The \<open>for ... else\<close> loop of \<open>Pipeline.retrieve\<close> over a non-empty list \<open>p # ps\<close>, entered at
  index \<open>idx\<close>.  It returns the loop variables as they stand after the loop: \<open>idx\<close>,
  \<open>active_provider\<close> (\<open>None\<close> when the loop ran to its \<open>else\<close>), \<open>response\<close>, and the state
  and the calls made.
\<close>

fun search ::
  "nat \<Rightarrow> ('p, 'c, 's) provider \<Rightarrow> ('p, 'c, 's) provider list \<Rightarrow> 'p \<Rightarrow> 's
   \<Rightarrow> nat \<times> ('p, 'c, 's) provider option \<times> 'c response \<times> 's \<times> ('p, 'c) call list" where
  "search idx p [] params s =
     (let (response, s') = retrieve p params s
      in if \<not> is_continue response
         then (idx, Some p, response, s', [Retrieve idx params response])
         else (idx, None, response, s', [Retrieve idx params response]))"
| "search idx p (q # qs) params s =
     (let (response, s') = retrieve p params s
      in if \<not> is_continue response
         then (idx, Some p, response, s', [Retrieve idx params response])
         else (let (idx', active_provider, response', s'', calls) =
                     search (Suc idx) q qs params s'
               in (idx', active_provider, response', s'',
                   Retrieve idx params response # calls)))"

text \<open>The second loop: \<open>process_response\<close> on each provider of the given slice, in order.\<close>

fun notify ::
  "(nat \<times> ('p, 'c, 's) provider) list \<Rightarrow> nat option \<Rightarrow> 'p \<Rightarrow> 'c option \<Rightarrow> 's
   \<Rightarrow> 's \<times> ('p, 'c) call list" where
  "notify [] winner params content s = (s, [])"
| "notify ((i, p) # rest) winner params content s =
     (let s' = process_response p winner params content s;
          (s'', calls) = notify rest winner params content s'
      in (s'', ProcessResponse i winner params content # calls))"

text \<open>
  \<open>Pipeline.retrieve\<close>.  The slice \<open>self.providers[idx::-1]\<close> is the providers at indices
  \<open>idx, idx - 1, ..., 0\<close>.  The result is the returned content, the final state and the
  calls made.  The logging calls are left out: \<open>active_provider_label\<close> is used by them
  only, and \<open>len(content)\<close> is defined for the \<open>str\<close> and \<open>bytes\<close> contents of the pipelines
  of this program.
\<close>

definition Pipeline_retrieve ::
  "('p, 'c, 's) provider list \<Rightarrow> 'p \<Rightarrow> 's \<Rightarrow> 'c option \<times> 's \<times> ('p, 'c) call list" where
  "Pipeline_retrieve providers params s =
     (case providers of
        [] \<Rightarrow> (None, s, [])
      | p # ps \<Rightarrow>
          (let (idx, active_provider, response, s1, calls1) = search 0 p ps params s;
               content = (case response of
                            CONTINUE_SEARCH \<Rightarrow> None
                          | DOES_NOT_EXIST \<Rightarrow> None
                          | Content c \<Rightarrow> Some c);
               (s2, calls2) =
                  notify (rev (take (Suc idx) (enumerate 0 providers)))
                    (map_option ident active_provider) params content s1
           in (content, s2, calls1 @ calls2)))"

text \<open>Reading the calls.\<close>

fun retrieve_calls :: "('p, 'c) call list \<Rightarrow> (nat \<times> 'p \<times> 'c response) list" where
  "retrieve_calls [] = []"
| "retrieve_calls (Retrieve i params r # cs) = (i, params, r) # retrieve_calls cs"
| "retrieve_calls (ProcessResponse i w params c # cs) = retrieve_calls cs"

fun process_calls :: "('p, 'c) call list \<Rightarrow> (nat \<times> nat option \<times> 'p \<times> 'c option) list" where
  "process_calls [] = []"
| "process_calls (Retrieve i params r # cs) = process_calls cs"
| "process_calls (ProcessResponse i w params c # cs) = (i, w, params, c) # process_calls cs"

text \<open>
  For stating what the pipeline does: the answers the providers give when each is asked
  in list order, the state passing from one to the next, and the index at which the
  search stops on such a list of answers (the first that is not \<open>CONTINUE_SEARCH\<close>, or the
  last index when there is none).
\<close>

fun answers :: "('p, 'c, 's) provider list \<Rightarrow> 'p \<Rightarrow> 's \<Rightarrow> ('c response \<times> 's) list" where
  "answers [] params s = []"
| "answers (p # ps) params s =
     (let (r, s') = retrieve p params s in (r, s') # answers ps params s')"

definition stop_index :: "'c response list \<Rightarrow> nat" where
  "stop_index rs =
     (if list_all is_continue rs then length rs - 1 else length (takeWhile is_continue rs))"

text \<open>Three providers for exercising the pipeline on a state that counts notifications.\<close>

definition undecided_provider :: "nat \<Rightarrow> (nat, string, nat) provider" where
  "undecided_provider i =
     \<lparr>ident = i, retrieve = (\<lambda>params s. (CONTINUE_SEARCH, s)),
      process_response = (\<lambda>winner params content s. Suc s)\<rparr>"

definition denying_provider :: "nat \<Rightarrow> (nat, string, nat) provider" where
  "denying_provider i =
     \<lparr>ident = i, retrieve = (\<lambda>params s. (DOES_NOT_EXIST, s)),
      process_response = (\<lambda>winner params content s. Suc s)\<rparr>"

definition serving_provider :: "nat \<Rightarrow> string \<Rightarrow> (nat, string, nat) provider" where
  "serving_provider i c =
     \<lparr>ident = i, retrieve = (\<lambda>params s. (Content c, s)),
      process_response = (\<lambda>winner params content s. Suc s)\<rparr>"

section \<open>Candidate archives of the current-archive provider (files.py, config.py)\<close>

text \<open>
  \<open>distutils.version.LooseVersion(vstring).version\<close>: the string is cut by
  \<open>(\d+ | [a-z]+ | \.)\<close> into maximal runs of digits, maximal runs of lowercase letters,
  single dots and the text between them; dots and empty pieces are dropped, digit runs
  become integers, everything else stays a string.  Digits are the ASCII digits: a
  component written with other Unicode decimal digits, which \<open>LooseVersion\<close> reads as a
  number, is a string here.
\<close>

datatype component = CInt nat | CStr string

definition is_other :: "char \<Rightarrow> bool" where
  "is_other c = (\<not> is_digit c \<and> \<not> is_lower c \<and> c \<noteq> CHR ''.'')"

function LooseVersion_parse :: "string \<Rightarrow> component list" where
  "LooseVersion_parse [] = []"
| "LooseVersion_parse (c # cs) =
     (if is_digit c then
        CInt (nat_of_digits (c # takeWhile is_digit cs))
          # LooseVersion_parse (dropWhile is_digit cs)
      else if is_lower c then
        CStr (c # takeWhile is_lower cs) # LooseVersion_parse (dropWhile is_lower cs)
      else if c = CHR ''.'' then LooseVersion_parse cs
      else CStr (c # takeWhile is_other cs) # LooseVersion_parse (dropWhile is_other cs))"
  by pat_completeness auto
termination
  by (relation "measure length") (auto simp: length_dropWhile_le less_Suc_eq_le)

declare LooseVersion_parse.simps [simp del]

text \<open>
  \<open>LooseVersion.__init__\<close> parses only a non-empty string; for the empty string the object
  has no attribute \<open>version\<close>.
\<close>

definition LooseVersion_version :: "string \<Rightarrow> py_error + component list" where
  "LooseVersion_version vstring =
     (if vstring = [] then Inl AttributeError else Inr (LooseVersion_parse vstring))"

definition CHROME_UNSIGNED_ARTIFACT_PATH :: "string \<Rightarrow> string" where
  "CHROME_UNSIGNED_ARTIFACT_PATH v = ''desktop-5c0tCh/'' @ v @ ''/linux64/devtools-frontend.zip''"

text \<open>
  The list \<open>patch_versions\<close> of \<open>ChromeUnsignedProvider.get_blobnames\<close>.  \<open>v.version[3]\<close> raises
  \<open>IndexError\<close> when there are fewer than four components, and adding 1 to a string
  component raises \<open>TypeError\<close>.
\<close>

definition patch_versions :: "string \<Rightarrow> py_error + string list" where
  "patch_versions version =
     (case LooseVersion_version version of
        Inl e \<Rightarrow> Inl e
      | Inr comps \<Rightarrow>
          if length comps < 4 then Inl IndexError
          else (case comps ! 3 of
                  CStr x \<Rightarrow> Inl TypeError
                | CInt p \<Rightarrow>
                    Inr (map (\<lambda>patch. join ''.''
                                (take 3 (split_sep (CHR ''.'') version) @ [str_nat patch]))
                           (rev [0..<p + 1]))))"

definition get_blobnames :: "string option \<Rightarrow> string option \<Rightarrow> py_error + string list" where
  "get_blobnames revision version =
     (case version of
        None \<Rightarrow> Inr []
      | Some v \<Rightarrow>
          (case patch_versions v of
             Inl e \<Rightarrow> Inl e
           | Inr pvs \<Rightarrow> Inr (map CHROME_UNSIGNED_ARTIFACT_PATH pvs)))"

section \<open>Object storage (storage_helper.py)\<close>

text \<open>
  The buckets, by bucket name and blob name, and what the storage service replies with
  when a conditional create fails (the \<open>errors\<close> list of the 412 response, each entry read
  as its \<open>reason\<close> and \<open>location\<close>).  \<open>downloads\<close> lists the \<open>download_blob\<close> calls made so
  far, oldest first; it is not part of the program's state and only serves to count
  fetches.
\<close>

record store =
  blobs :: "string \<Rightarrow> string \<rightharpoonup> string"
  precondition_errors :: "(string \<times> string) list"
  downloads :: "(string \<times> string) list"

text \<open>\<open>download_blob\<close>: \<open>None\<close> when the blob does not exist (\<open>NotFound\<close> is caught).\<close>

definition download_blob :: "string \<Rightarrow> string \<Rightarrow> store \<Rightarrow> string option \<times> store" where
  "download_blob bucket blobname st =
     (blobs st bucket blobname, st\<lparr>downloads := downloads st @ [(bucket, blobname)]\<rparr>)"

text \<open>
  \<open>blob.upload_from_string(content, if_generation_match=0)\<close> of the storage client: the
  object is created only if no object of that name exists; otherwise nothing is written
  and \<open>PreconditionFailed\<close> is raised with the service's reply.
\<close>

definition Blob_upload_from_string ::
  "string \<Rightarrow> string \<Rightarrow> string \<Rightarrow> store \<Rightarrow> py_error option \<times> store" where
  "Blob_upload_from_string bucket blobname content st =
     (case blobs st bucket blobname of
        None \<Rightarrow>
          (None, st\<lparr>blobs := (blobs st)(bucket := (blobs st bucket)(blobname \<mapsto> content))\<rparr>)
      | Some existing \<Rightarrow> (Some (PreconditionFailed (precondition_errors st)), st))"

text \<open>
  \<open>upload_from_string\<close>: the first component is the exception that leaves the call, if
  any.
\<close>

definition upload_from_string ::
  "string \<Rightarrow> string \<Rightarrow> string \<Rightarrow> store \<Rightarrow> py_error option \<times> store" where
  "upload_from_string bucket blobname content st =
     (case Blob_upload_from_string bucket blobname content st of
        (Some (PreconditionFailed errors), st') \<Rightarrow>
          if list_ex (\<lambda>e. fst e = ''conditionNotMet'' \<and> snd e = ''If-Match'') errors
          then (None, st')
          else (Some (PreconditionFailed errors), st')
      | r \<Rightarrow> r)"

section \<open>Version providers (versions.py)\<close>

text \<open>
  \<open>LocalMemoryProvider\<close>.  The dictionary holds what \<open>process_response\<close> was given: a version
  or \<open>None\<close>.  \<open>retrieve\<close> is \<open>self.version_by_revision.get(revision, CONTINUE_SEARCH) or
  DOES_NOT_EXIST\<close>: a stored value that is falsy (\<open>None\<close>, or the empty string) gives
  \<open>DOES_NOT_EXIST\<close>.
\<close>

type_synonym version_by_revision = "string \<rightharpoonup> string option"



text \<open>
  \<open>versions.LocalBucketProvider\<close> on the bucket named \<open>LOCAL_BUCKET\<close> (read from the
  environment, so a parameter here).
\<close>

definition versions_get_bucket_path :: "string \<Rightarrow> string" where
  "versions_get_bucket_path revision = ''version_by_revision/'' @ revision"


definition versions_LocalBucketProvider_process_response ::
  "string \<Rightarrow> nat \<Rightarrow> nat option \<Rightarrow> string \<Rightarrow> string option \<Rightarrow> store
   \<Rightarrow> py_error option \<times> store" where
  "versions_LocalBucketProvider_process_response LOCAL_BUCKET self provider revision version st =
     (if provider = Some self then (None, st)
      else (case version of
              None \<Rightarrow> (None, st)
            | Some v \<Rightarrow> upload_from_string LOCAL_BUCKET (versions_get_bucket_path revision) v st))"

text \<open>
  The remote providers.  The network is a function from the URL requested to what
  \<open>requests.get\<close> does: raise, or return a response with a status code and a body.
  \<open>json.loads\<close> and \<open>base64.b64decode\<close> are library functions taken as parameters (\<open>None\<close>
  stands for the exception they raise on input they cannot read: a \<open>ValueError\<close> subclass
  for JSON, \<open>binascii.Error\<close> for base64).  A JSON object is given by the items of the
  dictionary it is read into, each key once.
\<close>

datatype http_outcome = HttpRaises py_error | HttpResponse nat string

datatype json =
    JNull | JBool bool | JNumber int | JString string | JArray "json list"
  | JObject "(string \<times> json) list"

fun starts_with :: "string \<Rightarrow> string \<Rightarrow> bool" where
  "starts_with [] s = True"
| "starts_with (p # ps) [] = False"
| "starts_with (p # ps) (c # cs) = (p = c \<and> starts_with ps cs)"

fun str_contains :: "string \<Rightarrow> string \<Rightarrow> bool" where
  "str_contains sub [] = (sub = [])"
| "str_contains sub (c # cs) = (starts_with sub (c # cs) \<or> str_contains sub cs)"

definition CHROMIUM_DASH_URL :: string where
  "CHROMIUM_DASH_URL = ''https://chromiumdash.appspot.com/fetch_commit?commit=''"

definition REPOSITORY_URL :: "string \<Rightarrow> string" where
  "REPOSITORY_URL revision =
     ''https://chromium.googlesource.com/chromium/src/+/'' @ revision
     @ ''/chrome/VERSION?format=TEXT''"

text \<open>
  \<open>ChromiumDashProvider.retrieve\<close>.  Everything inside the \<open>try\<close> (the request and
  \<open>.json()\<close>) is covered by \<open>except Exception\<close>; what follows is not: \<open>"error" in response\<close>
  raises \<open>TypeError\<close> on a number, a boolean or null, \<open>response["error"]\<close> raises on a list
  or a string, \<open>response.get\<close> exists only on a dict, and \<open>is_valid_version\<close> raises
  \<open>TypeError\<close> on a value that is not a string.
\<close>

definition ChromiumDashProvider_retrieve ::
  "(string \<Rightarrow> json option) \<Rightarrow> (string \<Rightarrow> http_outcome) \<Rightarrow> string
   \<Rightarrow> py_error + string response" where
  "ChromiumDashProvider_retrieve json_loads requests_get revision =
     (case requests_get (CHROMIUM_DASH_URL @ revision) of
        HttpRaises e \<Rightarrow> Inr CONTINUE_SEARCH
      | HttpResponse status body \<Rightarrow>
          (case json_loads body of
             None \<Rightarrow> Inr CONTINUE_SEARCH
           | Some (JObject items) \<Rightarrow>
               if ''error'' \<in> set (map fst items) then Inr CONTINUE_SEARCH
               else (case map_of items ''earliest'' of
                       None \<Rightarrow> Inr CONTINUE_SEARCH
                     | Some JNull \<Rightarrow> Inr CONTINUE_SEARCH
                     | Some (JString version) \<Rightarrow>
                         (case is_valid_version version of
                            Inl e \<Rightarrow> Inl e
                          | Inr valid \<Rightarrow>
                              if \<not> valid then Inr CONTINUE_SEARCH else Inr (Content version))
                     | Some other \<Rightarrow> Inl TypeError)
           | Some (JArray xs) \<Rightarrow>
               if JString ''error'' \<in> set xs then Inl TypeError else Inl AttributeError
           | Some (JString x) \<Rightarrow>
               if str_contains ''error'' x then Inl TypeError else Inl AttributeError
           | Some other \<Rightarrow> Inl TypeError))"

text \<open>
  \<open>VERSION_FILE_PATTERN = ^MAJOR=(\d+)\nMINOR=(\d+)\nBUILD=(\d+)\nPATCH=(\d+)\n$\<close>, with
  \<open>\d\<close> on ASCII digits (a VERSION file written with other Unicode decimal digits matches
  in the code and not here).  The result is the four groups.
\<close>

definition match_literal :: "string \<Rightarrow> string \<Rightarrow> string option" where
  "match_literal lit s = (if starts_with lit s then Some (drop (length lit) s) else None)"

definition match_digits1 :: "string \<Rightarrow> (string \<times> string) option" where
  "match_digits1 s =
     (if takeWhile is_digit s = [] then None
      else Some (takeWhile is_digit s, dropWhile is_digit s))"

definition VERSION_FILE_PATTERN_match :: "string \<Rightarrow> (string \<times> string \<times> string \<times> string) option" where
  "VERSION_FILE_PATTERN_match content =
     (case match_literal ''MAJOR='' content of None \<Rightarrow> None | Some r1 \<Rightarrow>
      case match_digits1 r1 of None \<Rightarrow> None | Some (major, r2) \<Rightarrow>
      case match_literal (newline # ''MINOR='') r2 of None \<Rightarrow> None | Some r3 \<Rightarrow>
      case match_digits1 r3 of None \<Rightarrow> None | Some (minor, r4) \<Rightarrow>
      case match_literal (newline # ''BUILD='') r4 of None \<Rightarrow> None | Some r5 \<Rightarrow>
      case match_digits1 r5 of None \<Rightarrow> None | Some (build, r6) \<Rightarrow>
      case match_literal (newline # ''PATCH='') r6 of None \<Rightarrow> None | Some r7 \<Rightarrow>
      case match_digits1 r7 of None \<Rightarrow> None | Some (patch, r8) \<Rightarrow>
      case match_literal [newline] r8 of None \<Rightarrow> None | Some r9 \<Rightarrow>
      if at_dollar r9 then Some (major, minor, build, patch) else None)"

text \<open>
  \<open>ChromiumRepositoryProvider.retrieve\<close>.  The first \<open>try\<close> catches \<open>ReadTimeout\<close> only; the
  second catches \<open>binascii.Error\<close> only, so a \<open>UnicodeDecodeError\<close> from \<open>.decode("utf-8")\<close>
  leaves the provider.
\<close>

definition ChromiumRepositoryProvider_retrieve ::
  "(string \<Rightarrow> string option) \<Rightarrow> (string \<Rightarrow> http_outcome) \<Rightarrow> string
   \<Rightarrow> py_error + string response" where
  "ChromiumRepositoryProvider_retrieve b64decode requests_get revision =
     (case requests_get (REPOSITORY_URL revision) of
        HttpRaises ReadTimeout \<Rightarrow> Inr CONTINUE_SEARCH
      | HttpRaises e \<Rightarrow> Inl e
      | HttpResponse status_code body \<Rightarrow>
          if status_code = 404 then Inr DOES_NOT_EXIST
          else (case b64decode body of
                  None \<Rightarrow> Inr CONTINUE_SEARCH
                | Some decoded \<Rightarrow>
                    (case decode_utf8 decoded of
                       Inl e \<Rightarrow> Inl e
                     | Inr content \<Rightarrow>
                         (case VERSION_FILE_PATTERN_match content of
                            None \<Rightarrow> Inr CONTINUE_SEARCH
                          | Some (major, minor, build, patch) \<Rightarrow>
                              Inr (Content (join ''.'' [major, minor, build, patch]))))))"

section \<open>File providers (files.py)\<close>

text \<open>\<open>files.LocalBucketProvider\<close>, the cache of extracted files in the local bucket.\<close>

definition get_local_path :: "string option \<Rightarrow> string \<Rightarrow> string \<Rightarrow> string" where
  "get_local_path storage_suffix revision filename =
     (case storage_suffix of
        None \<Rightarrow> ''extracted/'' @ revision @ ''/'' @ filename
      | Some suffix \<Rightarrow> ''extracted/'' @ revision @ ''-'' @ suffix @ ''/'' @ filename)"


definition files_LocalBucketProvider_process_response ::
  "string \<Rightarrow> string option \<Rightarrow> nat \<Rightarrow> nat option \<Rightarrow> string \<times> string \<Rightarrow> string option \<Rightarrow> store
   \<Rightarrow> py_error option \<times> store" where
  "files_LocalBucketProvider_process_response LOCAL_BUCKET storage_suffix self provider params
     content st =
     (if provider = Some self then (None, st)
      else (case content of
              None \<Rightarrow> (None, st)
            | Some c \<Rightarrow>
                upload_from_string LOCAL_BUCKET
                  (get_local_path storage_suffix (fst params) (snd params)) c st))"

text \<open>
  The cache-filling calls of the two durable caches, and a run of such calls one after
  the other (each belongs to some request; an exception ends that request only).
\<close>

datatype cache_fill =
    VersionCacheFill nat "nat option" string "string option"
  | FileCacheFill "string option" nat "nat option" "string \<times> string" "string option"

fun run_cache_fill :: "string \<Rightarrow> cache_fill \<Rightarrow> store \<Rightarrow> py_error option \<times> store" where
  "run_cache_fill LOCAL_BUCKET (VersionCacheFill self provider revision version) st =
     versions_LocalBucketProvider_process_response LOCAL_BUCKET self provider revision version st"
| "run_cache_fill LOCAL_BUCKET (FileCacheFill storage_suffix self provider params content) st =
     files_LocalBucketProvider_process_response LOCAL_BUCKET storage_suffix self provider params
       content st"

fun run_cache_fills :: "string \<Rightarrow> cache_fill list \<Rightarrow> store \<Rightarrow> store" where
  "run_cache_fills LOCAL_BUCKET [] st = st"
| "run_cache_fills LOCAL_BUCKET (c # cs) st =
     run_cache_fills LOCAL_BUCKET cs (snd (run_cache_fill LOCAL_BUCKET c st))"

text \<open>
  \<open>LegacyM99FilesProvider.retrieve\<close>.  \<open>hash_entry.split(":", maxsplit=1)\<close> is unpacked
  into two names, which raises \<open>ValueError\<close> on a line without a colon.
\<close>

definition LEGACY_BUCKET :: string where
  "LEGACY_BUCKET = ''chrome-devtools-frontend''"

definition split_entry :: "string \<Rightarrow> (string \<times> string) option" where
  "split_entry hash_entry =
     (if CHR '':'' \<in> set hash_entry
      then Some (takeWhile (\<lambda>c. c \<noteq> CHR '':'') hash_entry,
                 drop 1 (dropWhile (\<lambda>c. c \<noteq> CHR '':'') hash_entry))
      else None)"

fun find_file_hash :: "string list \<Rightarrow> string \<Rightarrow> py_error + string option" where
  "find_file_hash [] name = Inr None"
| "find_file_hash (hash_entry # hash_entries) name =
     (case split_entry hash_entry of
        None \<Rightarrow> Inl ValueError
      | Some (current_file_hash, current_filename) \<Rightarrow>
          if current_filename = name then Inr (Some current_file_hash)
          else find_file_hash hash_entries name)"

definition LegacyM99FilesProvider_retrieve ::
  "string \<times> string \<Rightarrow> store \<Rightarrow> (py_error + string response) \<times> store" where
  "LegacyM99FilesProvider_retrieve params st =
     (let revision = fst params; name = snd params;
          meta_filename = ''meta/@'' @ revision
      in case download_blob LEGACY_BUCKET meta_filename st of
           (None, st1) \<Rightarrow> (Inr CONTINUE_SEARCH, st1)
         | (Some meta_blob, st1) \<Rightarrow>
             (case decode_utf8 meta_blob of
                Inl e \<Rightarrow> (Inl e, st1)
              | Inr text \<Rightarrow>
                  (case find_file_hash (split_sep newline (strip [newline] text)) name of
                     Inl e \<Rightarrow> (Inl e, st1)
                   | Inr None \<Rightarrow> (Inr CONTINUE_SEARCH, st1)
                   | Inr (Some file_hash) \<Rightarrow>
                       (case download_blob LEGACY_BUCKET (''hash/'' @ file_hash) st1 of
                          (None, st2) \<Rightarrow> (Inr CONTINUE_SEARCH, st2)
                        | (Some hash_blob, st2) \<Rightarrow> (Inr (Content hash_blob), st2)))))"

text \<open>
  \<open>ZipFileProvider\<close>.  A provider is given by its archive bucket (\<open>get_bucketname()\<close>), the
  local bucket of the tables of contents (\<open>LOCAL_BUCKET\<close>) and its base directories
  (\<open>get_zip_base_dirs()\<close>).  The \<open>zipfile\<close> module is a parameter: \<open>infolist\<close> gives the
  entries of an archive as their \<open>orig_filename\<close> and \<open>is_dir()\<close>, or \<open>None\<close> when
  \<open>zipfile.ZipFile\<close> raises \<open>BadZipFile\<close>; \<open>read\<close> gives the bytes of a member, or \<open>None\<close> when
  \<open>ZipFile.read\<close> raises \<open>KeyError\<close>.
\<close>

record zip_provider =
  bucketname :: string
  local_bucketname :: string
  zip_base_dirs :: "string list"

record zipfile_module =
  infolist :: "string \<Rightarrow> (string \<times> bool) list option"
  read :: "string \<Rightarrow> string \<Rightarrow> string option"

definition get_zip_toc_path :: "zip_provider \<Rightarrow> string \<Rightarrow> string" where
  "get_zip_toc_path prov blobname = ''tocs/'' @ bucketname prov @ ''/'' @ blobname"

definition is_any_file_in_zip ::
  "zip_provider \<Rightarrow> string \<Rightarrow> string list \<Rightarrow> store
   \<Rightarrow> (py_error + bool \<times> string option) \<times> store" where
  "is_any_file_in_zip prov blobname filenames st =
     (case download_blob (local_bucketname prov) (get_zip_toc_path prov blobname) st of
        (None, st') \<Rightarrow> (Inr (False, None), st')
      | (Some toc_blob, st') \<Rightarrow>
          (case decode_utf8 toc_blob of
             Inl e \<Rightarrow> (Inl e, st')
           | Inr text \<Rightarrow>
               (Inr (True, find (\<lambda>filename. filename \<in> set (split_sep newline (strip [newline] text)))
                             filenames), st')))"

definition save_zip_toc ::
  "zip_provider \<Rightarrow> string \<Rightarrow> (string \<times> bool) list \<Rightarrow> store
   \<Rightarrow> (py_error + string set) \<times> store" where
  "save_zip_toc prov blobname entries st =
     (let files = filter (\<lambda>zi. \<not> snd zi) entries;
          toc = concat (map (\<lambda>f. fst f @ [newline]) files);
          paths = set (map fst files)
      in case upload_from_string (local_bucketname prov) (get_zip_toc_path prov blobname) toc st of
           (Some e, st') \<Rightarrow> (Inl e, st')
         | (None, st') \<Rightarrow> (Inr paths, st'))"

text \<open>The loop of \<open>extract_from_zip_blob\<close> over the candidate blob names.\<close>

fun extract_loop ::
  "zip_provider \<Rightarrow> zipfile_module \<Rightarrow> string list \<Rightarrow> string \<Rightarrow> string list \<Rightarrow> store
   \<Rightarrow> (py_error + string response) \<times> store" where
  "extract_loop prov zipfile paths filename [] st = (Inr CONTINUE_SEARCH, st)"
| "extract_loop prov zipfile paths filename (blobname # blobnames) st =
     (case is_any_file_in_zip prov blobname paths st of
        (Inl e, st1) \<Rightarrow> (Inl e, st1)
      | (Inr (toc_exists, path), st1) \<Rightarrow>
          if toc_exists \<and> path = None then (Inr DOES_NOT_EXIST, st1)
          else (case download_blob (bucketname prov) blobname st1 of
                  (None, st2) \<Rightarrow> extract_loop prov zipfile paths filename blobnames st2
                | (Some content, st2) \<Rightarrow>
                    (case infolist zipfile content of
                       None \<Rightarrow> (Inl BadZipFile, st2)
                     | Some entries \<Rightarrow>
                         if \<not> toc_exists then
                           (case save_zip_toc prov blobname entries st2 of
                              (Inl e, st3) \<Rightarrow> (Inl e, st3)
                            | (Inr paths_in_zip, st3) \<Rightarrow>
                                (case find (\<lambda>p. p \<in> paths_in_zip) paths of
                                   None \<Rightarrow> (Inr DOES_NOT_EXIST, st3)
                                 | Some p \<Rightarrow>
                                     (case read zipfile content p of
                                        None \<Rightarrow> (Inl KeyError, st3)
                                      | Some bytes \<Rightarrow> (Inr (Content bytes), st3))))
                         else (case path of
                                 None \<Rightarrow> (Inr DOES_NOT_EXIST, st2)
                               | Some p \<Rightarrow>
                                   (case read zipfile content p of
                                      None \<Rightarrow> (Inl KeyError, st2)
                                    | Some bytes \<Rightarrow> (Inr (Content bytes), st2))))))"

definition extract_from_zip_blob ::
  "zip_provider \<Rightarrow> zipfile_module \<Rightarrow> string list \<Rightarrow> string \<Rightarrow> store
   \<Rightarrow> (py_error + string response) \<times> store" where
  "extract_from_zip_blob prov zipfile blobnames filename st =
     extract_loop prov zipfile (map (\<lambda>path. path @ filename) (zip_base_dirs prov)) filename
       blobnames st"

text \<open>A store for exercising the caches: one cached version in the local bucket.\<close>

definition cached_store :: store where
  "cached_store =
     \<lparr>blobs = (\<lambda>b. Map.empty)(''local'' := [''version_by_revision/abc'' \<mapsto> ''1.0.1.0'']),
      precondition_errors = [(''conditionNotMet'', ''If-Match'')],
      downloads = []\<rparr>"

text \<open>A legacy bucket with one manifest and one hashed file.\<close>

definition legacy_store :: store where
  "legacy_store =
     \<lparr>blobs = (\<lambda>b. Map.empty)(LEGACY_BUCKET :=
        [''meta/@abc'' \<mapsto> ''h1:demo.js'' @ [newline] @ ''h2:logo.ico'' @ [newline],
         ''hash/h1'' \<mapsto> ''content'']),
      precondition_errors = [(''conditionNotMet'', ''If-Match'')],
      downloads = []\<rparr>"

text \<open>An archive provider, a store with one cached table of contents, and a zip library.\<close>

definition archive_provider :: zip_provider where
  "archive_provider =
     \<lparr>bucketname = ''archive'', local_bucketname = ''local'', zip_base_dirs = [''front_end/'']\<rparr>"

definition toc_store :: store where
  "toc_store =
     \<lparr>blobs = (\<lambda>b. Map.empty)(''local'' :=
        [''tocs/archive/v2'' \<mapsto> ''front_end/a.js'' @ [newline] @ ''front_end/b.js'' @ [newline]]),
      precondition_errors = [(''conditionNotMet'', ''If-Match'')],
      downloads = []\<rparr>"

definition no_zipfile :: zipfile_module where
  "no_zipfile = \<lparr>infolist = (\<lambda>content. None), read = (\<lambda>content name. None)\<rparr>"





section \<open>Properties of the pipeline\<close>

lemma length_answers [simp]: "length (answers ps params s) = length ps"
  by (induction ps arbitrary: s) (auto split: prod.splits)

lemma answers_Nil_iff [simp]: "answers ps params s = [] \<longleftrightarrow> ps = []"
  by (cases ps) (auto split: prod.splits)

lemma stop_index_Cons:
  "stop_index (r # rs) = (if is_continue r \<and> rs \<noteq> [] then Suc (stop_index rs) else 0)"
  by (auto simp: stop_index_def)

lemma stop_index_less: "rs \<noteq> [] \<Longrightarrow> stop_index rs < length rs"
  by (induction rs) (auto simp: stop_index_Cons)

lemma stop_index_prefix: "list_all is_continue (take (stop_index rs) rs)"
  by (induction rs) (auto simp: stop_index_Cons)

lemma stop_index_last: "rs \<noteq> [] \<Longrightarrow> is_continue (rs ! stop_index rs) \<Longrightarrow> Suc (stop_index rs) = length rs"
  by (induction rs) (auto simp: stop_index_Cons split: if_splits)

lemma stop_index_first:
  "i < length rs \<Longrightarrow> \<not> is_continue (rs ! i) \<Longrightarrow> list_all is_continue (take i rs)
   \<Longrightarrow> stop_index rs = i"
proof (induction rs arbitrary: i)
  case Nil
  then show ?case by simp
next
  case (Cons r rs)
  then show ?case
    by (cases i) (auto simp: stop_index_Cons)
qed

lemma stop_index_all: "list_all is_continue rs \<Longrightarrow> stop_index rs = length rs - 1"
  by (simp add: stop_index_def)

lemma search_answers:
  "search idx p ps params s =
     (let ans = answers (p # ps) params s; rs = map fst ans; k = stop_index rs
      in (idx + k,
          if is_continue (rs ! k) then None else Some ((p # ps) ! k),
          rs ! k, snd (ans ! k),
          map (\<lambda>j. Retrieve (idx + j) params (rs ! j)) [0..<Suc k]))"
proof (induction ps arbitrary: idx p s)
  case Nil
  then show ?case
    by (auto simp: stop_index_def Let_def split: prod.splits)
next
  case (Cons q qs)
  obtain r s' where r: "retrieve p params s = (r, s')" by (cases "retrieve p params s")
  show ?case
  proof (cases "is_continue r")
    case False
    then show ?thesis using r by (simp add: stop_index_Cons)
  next
    case True
    show ?thesis
      using r True Cons.IH[of "Suc idx" q s']
      apply (simp add: stop_index_Cons Let_def split: prod.splits del: upt_Suc)
      apply (simp add: upt_rec[of 0] map_Suc_upt[symmetric] del: upt_Suc)
      done
  qed
qed

lemma notify_eq:
  "notify ips winner params content s =
     (foldl (\<lambda>t ip. process_response (snd ip) winner params content t) s ips,
      map (\<lambda>ip. ProcessResponse (fst ip) winner params content) ips)"
  by (induction ips arbitrary: s) (auto simp: Let_def split: prod.splits)

lemma take_enumerate_nth:
  "n \<le> length xs \<Longrightarrow> take n (enumerate 0 xs) = map (\<lambda>j. (j, xs ! j)) [0..<n]"
  by (auto simp: list_eq_iff_nth_eq nth_enumerate_eq)

lemma retrieve_calls_append:
  "retrieve_calls (map (\<lambda>j. Retrieve j params (g j)) js
                   @ map (\<lambda>j. ProcessResponse j winner params content) js')
   = map (\<lambda>j. (j, params, g j)) js"
proof -
  have a: "retrieve_calls (map (\<lambda>j. ProcessResponse j winner params content) js') = []"
    by (induction js') auto
  show ?thesis by (induction js) (auto simp: a)
qed

lemma process_calls_append:
  "process_calls (map (\<lambda>j. Retrieve j params (g j)) js
                  @ map (\<lambda>j. ProcessResponse j winner params content) js')
   = map (\<lambda>j. (j, winner, params, content)) js'"
proof -
  have a: "process_calls (map (\<lambda>j. ProcessResponse j winner params content) js')
           = map (\<lambda>j. (j, winner, params, content)) js'"
    by (induction js') auto
  show ?thesis by (induction js) (auto simp: a)
qed

lemma Pipeline_retrieve_eq:
  fixes providers :: "('p, 'c, 's) provider list" and params :: 'p and s :: 's
  assumes "providers \<noteq> []"
  defines "ans \<equiv> answers providers params s"
  defines "rs \<equiv> map fst ans"
  defines "k \<equiv> stop_index rs"
  defines "content \<equiv> (case rs ! k of CONTINUE_SEARCH \<Rightarrow> None | DOES_NOT_EXIST \<Rightarrow> None | Content c \<Rightarrow> Some c)"
  defines "winner \<equiv> (if is_continue (rs ! k) then None else Some (ident (providers ! k)))"
  shows "Pipeline_retrieve providers params s =
     (content,
      foldl (\<lambda>t j. process_response (providers ! j) winner params content t) (snd (ans ! k))
        (rev [0..<Suc k]),
      map (\<lambda>j. Retrieve j params (rs ! j)) [0..<Suc k]
      @ map (\<lambda>j. ProcessResponse j winner params content) (rev [0..<Suc k]))"
proof -
  obtain p ps where ps: "providers = p # ps" using assms(1) by (cases providers) auto
  have k: "k < length providers"
    unfolding k_def rs_def ans_def using assms(1) stop_index_less[of "map fst (answers providers params s)"]
    by simp
  have tk: "take (Suc k) (enumerate 0 providers) = map (\<lambda>j. (j, providers ! j)) [0..<Suc k]"
    using k by (intro take_enumerate_nth) simp
  have w: "map_option ident (if is_continue (rs ! k) then None else Some (providers ! k)) = winner"
    by (simp add: winner_def)
  have "Pipeline_retrieve providers params s =
     (content,
      foldl (\<lambda>t ip. process_response (snd ip) winner params content t) (snd (ans ! k))
        (rev (map (\<lambda>j. (j, providers ! j)) [0..<Suc k])),
      map (\<lambda>j. Retrieve j params (rs ! j)) [0..<Suc k]
      @ map (\<lambda>ip. ProcessResponse (fst ip) winner params content)
          (rev (map (\<lambda>j. (j, providers ! j)) [0..<Suc k])))"
    unfolding Pipeline_retrieve_def ps list.case search_answers
    unfolding ps[symmetric] Let_def prod.case add_0
    unfolding ans_def[symmetric] rs_def[symmetric]
    unfolding k_def[symmetric]
    unfolding tk notify_eq w content_def[symmetric] prod.case
    by (simp del: upt_Suc)
  then show ?thesis
    by (simp add: rev_map foldl_map comp_def del: upt_Suc)
qed

text \<open>
  Claim C1.  For a non-empty provider list, \<open>Pipeline.retrieve\<close> calls \<open>retrieve\<close> on the
  providers at indices \<open>0, 1, ..., k\<close> in that order and on no other, where \<open>k\<close> is the
  index of the first provider whose answer is not \<open>CONTINUE_SEARCH\<close> (every answer before
  it is \<open>CONTINUE_SEARCH\<close>; when the answer at \<open>k\<close> is \<open>CONTINUE_SEARCH\<close> too, \<open>k\<close> is
  the last index and every provider was asked).  The value returned is the payload when
  that answer carries content, and \<open>None\<close> both when it is \<open>DOES_NOT_EXIST\<close> and when it is
  \<open>CONTINUE_SEARCH\<close>: the caller sees the same \<open>None\<close> in the two cases.  The winner handed
  to every \<open>process_response\<close> call is provider \<open>k\<close> whenever its answer is not
  \<open>CONTINUE_SEARCH\<close>, so also when it is \<open>DOES_NOT_EXIST\<close>, and \<open>None\<close> otherwise.
\<close>

theorem C1_pipeline_stops_at_first_answer:
  fixes providers :: "('p, 'c, 's) provider list" and params :: 'p and s :: 's
  assumes "providers \<noteq> []"
    and "Pipeline_retrieve providers params s = (content, s', calls)"
  defines "rs \<equiv> map fst (answers providers params s)"
  defines "k \<equiv> stop_index rs"
  shows "k < length providers
       \<and> retrieve_calls calls = map (\<lambda>j. (j, params, rs ! j)) [0..<Suc k]
       \<and> list_all is_continue (take k rs)
       \<and> (is_continue (rs ! k) \<longrightarrow> Suc k = length providers)
       \<and> content = (case rs ! k of
                      Content c \<Rightarrow> Some c
                    | DOES_NOT_EXIST \<Rightarrow> None
                    | CONTINUE_SEARCH \<Rightarrow> None)
       \<and> map (\<lambda>pc. fst (snd pc)) (process_calls calls) =
           replicate (Suc k)
             (if is_continue (rs ! k) then None else Some (ident (providers ! k)))"
proof -
  have ne: "rs \<noteq> []" using assms(1) by (simp add: rs_def)
  have len: "length rs = length providers" by (simp add: rs_def)
  note eq = Pipeline_retrieve_eq[OF assms(1), of params s, folded rs_def, folded k_def]
  have c: "content = (case rs ! k of
                      Content c \<Rightarrow> Some c
                    | DOES_NOT_EXIST \<Rightarrow> None
                    | CONTINUE_SEARCH \<Rightarrow> None)"
    using eq assms(2) by (auto split: response.splits)
  have calls: "retrieve_calls calls = map (\<lambda>j. (j, params, rs ! j)) [0..<Suc k]"
    using eq assms(2) by (simp add: retrieve_calls_append del: upt_Suc)
  have winner: "map (\<lambda>pc. fst (snd pc)) (process_calls calls) =
           replicate (Suc k)
             (if is_continue (rs ! k) then None else Some (ident (providers ! k)))"
    using eq assms(2)
    by (simp add: process_calls_append comp_def map_replicate_const del: upt_Suc replicate_Suc)
  show ?thesis
    using c calls winner stop_index_less[OF ne] stop_index_prefix[of rs] stop_index_last[OF ne]
    by (simp add: k_def len del: upt_Suc replicate_Suc)
qed

theorem C1_witness:
  "[undecided_provider 0, denying_provider 1, serving_provider 2 ''x''] \<noteq> []
   \<and> Pipeline_retrieve [undecided_provider 0, denying_provider 1, serving_provider 2 ''x''] 7 0
       = (None, 2, [Retrieve 0 7 CONTINUE_SEARCH, Retrieve 1 7 DOES_NOT_EXIST,
                    ProcessResponse 1 (Some 1) 7 None, ProcessResponse 0 (Some 1) 7 None])
   \<and> stop_index (map fst (answers
         [undecided_provider 0, denying_provider 1, serving_provider 2 ''x''] 7 0)) = 1"
proof -
  let ?ps = "[undecided_provider 0, denying_provider 1, serving_provider 2 ''x'']"
  have h1: "?ps \<noteq> []" by simp
  have h2: "Pipeline_retrieve ?ps 7 0
       = (None, 2, [Retrieve 0 7 CONTINUE_SEARCH, Retrieve 1 7 DOES_NOT_EXIST,
                    ProcessResponse 1 (Some 1) 7 None, ProcessResponse 0 (Some 1) 7 None])"
    by (simp add: Pipeline_retrieve_def undecided_provider_def denying_provider_def
        serving_provider_def is_continue_def enumerate_eq_zip upt_rec)
  have h3: "stop_index (map fst (answers ?ps 7 0)) = 1"
    by (simp add: stop_index_def undecided_provider_def denying_provider_def
        serving_provider_def is_continue_def)
  from C1_pipeline_stops_at_first_answer[OF h1 h2] h1 h2 h3 show ?thesis by simp
qed

text \<open>
  Claim C2.  When the provider at index \<open>i\<close> is the first whose answer is not
  \<open>CONTINUE_SEARCH\<close>, the \<open>process_response\<close> calls are exactly those on the providers at
  indices \<open>i, i - 1, ..., 0\<close>, in that order, each carrying the identity of provider \<open>i\<close>
  as winner and the content the pipeline returns; the final state is the result of those
  calls.  When every answer is \<open>CONTINUE_SEARCH\<close>, the calls are those on every provider, last
  to first, each with winner \<open>None\<close> and content \<open>None\<close>.  In both cases every
  \<open>process_response\<close> call comes after all \<open>retrieve\<close> calls.  For the empty list no call is
  made.
\<close>

theorem C2_pipeline_notifies_in_reverse:
  fixes providers :: "('p, 'c, 's) provider list" and params :: 'p and s :: 's
  assumes "Pipeline_retrieve providers params s = (content, s', calls)"
  defines "ans \<equiv> answers providers params s"
  shows "(\<forall>i. i < length providers \<and> \<not> is_continue (fst (ans ! i))
              \<and> list_all is_continue (take i (map fst ans)) \<longrightarrow>
            process_calls calls =
              map (\<lambda>j. (j, Some (ident (providers ! i)), params, content)) (rev [0..<Suc i])
            \<and> s' = foldl (\<lambda>t j. process_response (providers ! j)
                                 (Some (ident (providers ! i))) params content t)
                       (snd (ans ! i)) (rev [0..<Suc i]))
       \<and> (list_all is_continue (map fst ans) \<longrightarrow>
            process_calls calls =
              map (\<lambda>j. (j, None, params, None)) (rev [0..<length providers])
            \<and> content = None)
       \<and> drop (length (retrieve_calls calls)) calls =
            map (\<lambda>(j, winner, params, content). ProcessResponse j winner params content)
              (process_calls calls)"
proof (cases "providers = []")
  case True
  then show ?thesis using assms(1) by (simp add: Pipeline_retrieve_def)
next
  case False
  define rs where "rs = map fst ans"
  define k where "k = stop_index rs"
  have len: "length rs = length providers" by (simp add: rs_def ans_def)
  have ne: "rs \<noteq> []" using False len by auto
  note eq = Pipeline_retrieve_eq[OF False, of params s, folded ans_def, folded rs_def,
      folded k_def]
  have k: "k < length providers" using stop_index_less[OF ne] by (simp add: k_def len)
  have a: "process_calls calls =
              map (\<lambda>j. (j, Some (ident (providers ! i)), params, content)) (rev [0..<Suc i])
            \<and> s' = foldl (\<lambda>t j. process_response (providers ! j)
                                 (Some (ident (providers ! i))) params content t)
                       (snd (ans ! i)) (rev [0..<Suc i])"
    if i: "i < length providers" "\<not> is_continue (fst (ans ! i))"
      "list_all is_continue (take i (map fst ans))" for i
  proof -
    have "\<not> is_continue (rs ! i)" using i(1,2) by (simp add: rs_def ans_def)
    then have ki: "k = i" and nc: "\<not> is_continue (rs ! k)"
      using stop_index_first[of i rs] i(1,3) len by (simp_all add: k_def rs_def)
    show ?thesis
      using eq assms(1) nc unfolding ki
      by (simp add: process_calls_append del: upt_Suc)
  qed
  have b: "process_calls calls =
              map (\<lambda>j. (j, None, params, None)) (rev [0..<length providers])
            \<and> content = None"
    if all: "list_all is_continue (map fst ans)"
  proof -
    have kl: "Suc k = length providers"
      using stop_index_all[of rs] all False len by (cases providers) (simp_all add: k_def rs_def)
    have c: "is_continue (rs ! k)" using all k len by (simp add: rs_def list_all_length)
    then have r: "rs ! k = CONTINUE_SEARCH" by (simp add: is_continue_def split: response.splits)
    show ?thesis
      using eq assms(1) c r unfolding kl[symmetric]
      by (simp add: process_calls_append del: upt_Suc)
  qed
  have c: "drop (length (retrieve_calls calls)) calls =
            map (\<lambda>(j, winner, params, content). ProcessResponse j winner params content)
              (process_calls calls)"
    using eq assms(1)
    by (simp add: process_calls_append retrieve_calls_append comp_def del: upt_Suc)
  show ?thesis using a b c by blast
qed

theorem C2_witness:
  "Pipeline_retrieve [undecided_provider 0, serving_provider 1 ''x'', denying_provider 2] 7 0
       = (Some ''x'', 2, [Retrieve 0 7 CONTINUE_SEARCH, Retrieve 1 7 (Content ''x''),
                    ProcessResponse 1 (Some 1) 7 (Some ''x''),
                    ProcessResponse 0 (Some 1) 7 (Some ''x'')])
   \<and> process_calls [Retrieve 0 7 CONTINUE_SEARCH, Retrieve 1 7 (Content ''x''),
                    ProcessResponse 1 (Some 1) 7 (Some ''x''),
                    ProcessResponse 0 (Some 1) 7 (Some ''x'')]
       = map (\<lambda>j. (j, Some (ident (serving_provider 1 ''x'')), 7, Some ''x'')) (rev [0..<Suc 1])
   \<and> Pipeline_retrieve [undecided_provider 0, undecided_provider 1] 7 0
       = (None, 2, [Retrieve 0 7 CONTINUE_SEARCH, Retrieve 1 7 CONTINUE_SEARCH,
                    ProcessResponse 1 None 7 None, ProcessResponse 0 None 7 None])
   \<and> process_calls [Retrieve 0 7 CONTINUE_SEARCH, Retrieve (1::nat) (7::nat) (CONTINUE_SEARCH :: string response),
                    ProcessResponse 1 None 7 None, ProcessResponse 0 None 7 None]
       = map (\<lambda>j. (j, None, 7, None)) (rev [0..<2])"
proof -
  let ?ps = "[undecided_provider 0, serving_provider 1 ''x'', denying_provider 2]"
  let ?qs = "[undecided_provider 0, undecided_provider 1]"
  have h1: "Pipeline_retrieve ?ps 7 0
       = (Some ''x'', 2, [Retrieve 0 7 CONTINUE_SEARCH, Retrieve 1 7 (Content ''x''),
                    ProcessResponse 1 (Some 1) 7 (Some ''x''),
                    ProcessResponse 0 (Some 1) 7 (Some ''x'')])"
    by (simp add: Pipeline_retrieve_def undecided_provider_def denying_provider_def
        serving_provider_def is_continue_def enumerate_eq_zip upt_rec Let_def)
  have h2: "Pipeline_retrieve ?qs 7 0
       = (None, 2, [Retrieve 0 7 CONTINUE_SEARCH, Retrieve 1 7 CONTINUE_SEARCH,
                    ProcessResponse 1 None 7 None, ProcessResponse 0 None 7 None])"
    by (simp add: Pipeline_retrieve_def undecided_provider_def is_continue_def
        enumerate_eq_zip upt_rec)
  have p1: "1 < length ?ps \<and> \<not> is_continue (fst (answers ?ps 7 0 ! 1))
            \<and> list_all is_continue (take 1 (map fst (answers ?ps 7 0)))"
    by (simp add: undecided_provider_def denying_provider_def serving_provider_def
        is_continue_def)
  have p2: "list_all is_continue (map fst (answers ?qs 7 0))"
    by (simp add: undecided_provider_def is_continue_def)
  from C2_pipeline_notifies_in_reverse[OF h1, THEN conjunct1, rule_format, of 1, OF p1]
  have c1: "process_calls [Retrieve 0 7 CONTINUE_SEARCH, Retrieve 1 7 (Content ''x''),
                    ProcessResponse 1 (Some 1) 7 (Some ''x''),
                    ProcessResponse 0 (Some 1) 7 (Some ''x'')]
       = map (\<lambda>j. (j, Some (ident (serving_provider 1 ''x'')), 7, Some ''x'')) (rev [0..<Suc 1])"
    by (simp add: undecided_provider_def denying_provider_def serving_provider_def)
  from C2_pipeline_notifies_in_reverse[OF h2, THEN conjunct2, THEN conjunct1, rule_format, OF p2]
  have c2: "process_calls [Retrieve 0 7 CONTINUE_SEARCH, Retrieve (1::nat) (7::nat) (CONTINUE_SEARCH :: string response),
                    ProcessResponse 1 None 7 None, ProcessResponse 0 None 7 None]
       = map (\<lambda>j. (j, None, 7, None)) (rev [0..<2])"
    by (simp add: upt_rec)
  show ?thesis using h1 h2 c1 c2 by blast
qed

section \<open>Properties of the validation functions\<close>

text \<open>
  What \<open>is_valid_revision\<close> accepts: the strings of exactly \<open>n\<close> lowercase hexadecimal
  characters, and those strings followed by one newline.
\<close>

lemma is_valid_revision_iff:
  "is_valid_revision revision n \<longleftrightarrow>
     (length revision = n \<and> list_all is_hex_lower revision)
     \<or> (\<exists>h. revision = h @ [newline] \<and> length h = n \<and> list_all is_hex_lower h)"
proof -
  have "revision = take n revision @ drop n revision" by simp
  show ?thesis
    unfolding is_valid_revision_def at_dollar_def
    apply (rule iffI)
     apply (elim conjE disjE)
      apply simp
     apply (rule disjI2)
     apply (rule exI[of _ "take n revision"])
     apply (metis append_take_drop_id length_take min.absorb2)
    apply (elim disjE exE conjE)
     apply simp
    apply simp
    done
qed

lemma is_valid_revision_accepts_hex:
  "length revision = 40 \<Longrightarrow> list_all is_hex_lower revision \<Longrightarrow> is_valid_revision revision 40"
  by (simp add: is_valid_revision_iff)

lemma is_valid_revision_rejects_short:
  "length revision < n \<Longrightarrow> \<not> is_valid_revision revision n"
  by (simp add: is_valid_revision_def)

text \<open>
  Claim C10.  The claim says that validation at length 40 rejects every string of length
  41 and every string with a character outside \<open>[0-9a-f]\<close>.  The pattern ends in \<open>$\<close>, which
  also matches before a final newline: forty times \<open>a\<close> followed by a newline has length
  41, contains a character that is not a hexadecimal digit, and is accepted.
\<close>

theorem C10_revision_with_trailing_newline_accepted:
  "is_valid_revision (replicate 40 (CHR ''a'') @ [newline]) 40
   \<and> length (replicate 40 (CHR ''a'') @ [newline]) = 41
   \<and> \<not> is_hex_lower newline"
  by (simp add: is_valid_revision_def at_dollar_def list_all_iff is_hex_lower_def newline_def)

text \<open>
  Claim C5.  The claim says that \<open>is_valid_version\<close> returns a boolean on every string,
  also on strings with empty components.  \<open>VERSION_PATTERN\<close> lets the second and fourth
  component be empty (\<open>\d*\<close>), and \<open>int('')\<close> then raises: on \<open>1..1.\<close> the call raises
  \<open>ValueError\<close>.
\<close>

theorem C5_is_valid_version_raises:
  "is_valid_version ''1..1.'' = Inl ValueError"
  by code_simp

section \<open>Properties of the candidate list\<close>

lemma str_digit_table:
  "list_all (\<lambda>d. is_digit (str_digit d) \<and> digit_val (str_digit d) = d) [0..<10]"
  by (simp add: upt_rec str_digit_def is_digit_def digit_val_def)

lemma str_digit_below_10:
  assumes "d < 10"
  shows "is_digit (str_digit d) \<and> digit_val (str_digit d) = d"
proof -
  have "d \<in> set [0..<10]" using assms by simp
  then show ?thesis using str_digit_table unfolding list_all_iff by blast
qed

lemma str_digit_is_digit: "is_digit (str_digit d)"
proof -
  have "str_digit d = str_digit (d mod 10)" by (simp add: str_digit_def)
  then show ?thesis using str_digit_below_10[of "d mod 10"] by simp
qed

lemma digit_val_str_digit: "d < 10 \<Longrightarrow> digit_val (str_digit d) = d"
  by (simp add: str_digit_below_10)

lemma str_nat_digits: "list_all is_digit (str_nat n)"
  by (induction n rule: str_nat.induct) (subst str_nat.simps, simp add: str_digit_is_digit)

lemma str_nat_nonempty: "str_nat n \<noteq> []"
  by (subst str_nat.simps) simp

lemma nat_of_digits_snoc: "nat_of_digits (ds @ [c]) = 10 * nat_of_digits ds + digit_val c"
  by (simp add: nat_of_digits_def)

lemma nat_of_digits_str_nat: "nat_of_digits (str_nat n) = n"
proof (induction n rule: str_nat.induct)
  case (1 n)
  show ?case
  proof (cases "n < 10")
    case True
    then show ?thesis
      by (subst str_nat.simps) (simp add: nat_of_digits_def digit_val_str_digit)
  next
    case False
    then show ?thesis
      using 1 by (subst str_nat.simps) (simp add: nat_of_digits_snoc digit_val_str_digit)
  qed
qed

lemma dot_not_digit: "\<not> is_digit (CHR ''.'')"
  by (simp add: is_digit_def)

lemma takeWhile_digits_dot:
  "list_all is_digit ds \<Longrightarrow> takeWhile is_digit (ds @ CHR ''.'' # rest) = ds"
  by (induction ds) (auto simp: dot_not_digit)

lemma dropWhile_digits_dot:
  "list_all is_digit ds \<Longrightarrow> dropWhile is_digit (ds @ CHR ''.'' # rest) = CHR ''.'' # rest"
  by (induction ds) (auto simp: dot_not_digit)

lemma takeWhile_digits_all: "list_all is_digit ds \<Longrightarrow> takeWhile is_digit ds = ds"
  by (induction ds) auto

lemma dropWhile_digits_all: "list_all is_digit ds \<Longrightarrow> dropWhile is_digit ds = []"
  by (induction ds) auto

lemma LooseVersion_parse_dot: "LooseVersion_parse (CHR ''.'' # rest) = LooseVersion_parse rest"
  by (subst LooseVersion_parse.simps) (simp add: is_digit_def is_lower_def)

lemma LooseVersion_parse_digits_dot:
  assumes "list_all is_digit ds" and "ds \<noteq> []"
  shows "LooseVersion_parse (ds @ CHR ''.'' # rest) = CInt (nat_of_digits ds) # LooseVersion_parse rest"
proof -
  obtain d ds' where ds: "ds = d # ds'" using assms(2) by (cases ds) auto
  have d: "is_digit d" and ds': "list_all is_digit ds'" using assms(1) ds by auto
  show ?thesis
    unfolding ds append_Cons
    by (subst LooseVersion_parse.simps)
      (simp add: d takeWhile_digits_dot[OF ds'] dropWhile_digits_dot[OF ds'] LooseVersion_parse_dot)
qed

lemma LooseVersion_parse_digits:
  assumes "list_all is_digit ds" and "ds \<noteq> []"
  shows "LooseVersion_parse ds = [CInt (nat_of_digits ds)]"
proof -
  obtain d ds' where ds: "ds = d # ds'" using assms(2) by (cases ds) auto
  have d: "is_digit d" and ds': "list_all is_digit ds'" using assms(1) ds by auto
  show ?thesis
    unfolding ds
    by (subst LooseVersion_parse.simps)
      (simp add: d takeWhile_digits_all[OF ds'] dropWhile_digits_all[OF ds'] LooseVersion_parse.simps(1))
qed

lemma LooseVersion_parse_version_string:
  "LooseVersion_parse (version_string a b c p) = [CInt a, CInt b, CInt c, CInt p]"
  unfolding version_string_def
  by (simp add: LooseVersion_parse_digits_dot LooseVersion_parse_digits str_nat_digits
      str_nat_nonempty nat_of_digits_str_nat)

lemma split_sep_digits_dot:
  "list_all is_digit ds \<Longrightarrow>
   split_sep (CHR ''.'') (ds @ CHR ''.'' # rest) = ds # split_sep (CHR ''.'') rest"
  by (induction ds) (auto simp: dot_not_digit)

lemma split_sep_digits: "list_all is_digit ds \<Longrightarrow> split_sep (CHR ''.'') ds = [ds]"
  by (induction ds) (auto simp: dot_not_digit)

lemma split_sep_version_string:
  "split_sep (CHR ''.'') (version_string a b c p) = [str_nat a, str_nat b, str_nat c, str_nat p]"
  unfolding version_string_def
  by (simp add: split_sep_digits_dot split_sep_digits str_nat_digits)

lemma version_string_nonempty: "version_string a b c p \<noteq> []"
  by (simp add: version_string_def)

lemma patch_versions_version_string:
  "patch_versions (version_string a b c p)
   = Inr (map (\<lambda>k. version_string a b c k) (rev [0..<Suc p]))"
  unfolding patch_versions_def LooseVersion_version_def
  by (simp add: version_string_nonempty LooseVersion_parse_version_string
      split_sep_version_string del: upt_Suc)
    (simp add: version_string_def)

lemma is_valid_version_shape:
  "is_valid_version version = Inr True \<Longrightarrow> \<exists>a b c p. version = version_string a b c p"
  unfolding is_valid_version_def
  by (auto split: if_splits sum.splits list.splits)

text \<open>
  Claim C9.  A valid version is the dotted print of four numbers \<open>a.b.c.p\<close>; for it the
  list \<open>patch_versions\<close> of \<open>get_blobnames\<close> is \<open>a.b.c.p, a.b.c.(p-1), ..., a.b.c.0\<close> in
  that order, and \<open>get_blobnames\<close> returns the artifact path of each, in the same order.  For
  \<open>9.0.12.3\<close> the list is \<open>9.0.12.3, 9.0.12.2, 9.0.12.1, 9.0.12.0\<close> and for \<open>9.0.12.0\<close> it is
  \<open>9.0.12.0\<close> alone.
\<close>

theorem C9_patch_candidates_descend:
  assumes "is_valid_version version = Inr True"
  shows "(\<exists>a b c p. version = version_string a b c p
           \<and> patch_versions version = Inr (map (\<lambda>k. version_string a b c k) (rev [0..<Suc p]))
           \<and> get_blobnames revision (Some version)
               = Inr (map (\<lambda>k. CHROME_UNSIGNED_ARTIFACT_PATH (version_string a b c k))
                        (rev [0..<Suc p])))
       \<and> patch_versions ''9.0.12.3'' = Inr [''9.0.12.3'', ''9.0.12.2'', ''9.0.12.1'', ''9.0.12.0'']
       \<and> patch_versions ''9.0.12.0'' = Inr [''9.0.12.0'']"
proof -
  obtain a b c p where v: "version = version_string a b c p"
    using is_valid_version_shape[OF assms] by blast
  have 1: "patch_versions version = Inr (map (\<lambda>k. version_string a b c k) (rev [0..<Suc p]))"
    unfolding v by (rule patch_versions_version_string)
  have 2: "get_blobnames revision (Some version)
               = Inr (map (\<lambda>k. CHROME_UNSIGNED_ARTIFACT_PATH (version_string a b c k))
                        (rev [0..<Suc p]))"
    unfolding get_blobnames_def by (simp add: 1 comp_def rev_map del: upt_Suc)
  have 3: "patch_versions ''9.0.12.3'' = Inr [''9.0.12.3'', ''9.0.12.2'', ''9.0.12.1'', ''9.0.12.0'']"
    by code_simp
  have 4: "patch_versions ''9.0.12.0'' = Inr [''9.0.12.0'']"
    by code_simp
  show ?thesis using v 1 2 3 4 by blast
qed

theorem C9_witness:
  "is_valid_version ''9.0.12.2'' = Inr True
   \<and> get_blobnames None (Some ''9.0.12.2'')
       = Inr [''desktop-5c0tCh/9.0.12.2/linux64/devtools-frontend.zip'',
              ''desktop-5c0tCh/9.0.12.1/linux64/devtools-frontend.zip'',
              ''desktop-5c0tCh/9.0.12.0/linux64/devtools-frontend.zip'']
   \<and> patch_versions ''9.0.12.0'' = Inr [''9.0.12.0'']"
proof -
  have h: "is_valid_version ''9.0.12.2'' = Inr True" by code_simp
  have g: "get_blobnames None (Some ''9.0.12.2'')
       = Inr [''desktop-5c0tCh/9.0.12.2/linux64/devtools-frontend.zip'',
              ''desktop-5c0tCh/9.0.12.1/linux64/devtools-frontend.zip'',
              ''desktop-5c0tCh/9.0.12.0/linux64/devtools-frontend.zip'']"
    by code_simp
  from C9_patch_candidates_descend[OF h, of None] h g show ?thesis by blast
qed

section \<open>Properties of the durable caches\<close>

lemma upload_from_string_blobs:
  "blobs (snd (upload_from_string bucket blobname content st)) b k =
     (if b = bucket \<and> k = blobname \<and> blobs st bucket blobname = None
      then Some content else blobs st b k)"
  by (auto simp: upload_from_string_def Blob_upload_from_string_def
      split: option.splits py_error.splits)

lemma upload_from_string_keeps:
  "blobs st b k = Some v \<Longrightarrow> blobs (snd (upload_from_string bucket blobname content st)) b k = Some v"
  by (auto simp: upload_from_string_blobs)

lemma upload_from_string_errors [simp]:
  "precondition_errors (snd (upload_from_string bucket blobname content st)) = precondition_errors st"
  by (auto simp: upload_from_string_def Blob_upload_from_string_def
      split: option.splits py_error.splits)

lemma upload_from_string_loser:
  assumes "blobs st bucket blobname = Some v"
    and "(''conditionNotMet'', ''If-Match'') \<in> set (precondition_errors st)"
  shows "upload_from_string bucket blobname content st = (None, st)"
proof -
  have "list_ex (\<lambda>e. fst e = ''conditionNotMet'' \<and> snd e = ''If-Match'') (precondition_errors st)"
    unfolding list_ex_iff using assms(2) by force
  then show ?thesis
    using assms(1) by (simp add: upload_from_string_def Blob_upload_from_string_def)
qed

lemma upload_from_string_creates:
  assumes "blobs st bucket blobname = None"
  shows "upload_from_string bucket blobname content st =
     (None, st\<lparr>blobs := (blobs st)(bucket := (blobs st bucket)(blobname \<mapsto> content))\<rparr>)"
  using assms by (simp add: upload_from_string_def Blob_upload_from_string_def)

lemma run_cache_fill_keeps:
  "blobs st b k = Some v \<Longrightarrow> blobs (snd (run_cache_fill L c st)) b k = Some v"
  by (cases c)
    (auto simp: versions_LocalBucketProvider_process_response_def
      files_LocalBucketProvider_process_response_def upload_from_string_keeps
      split: option.splits)

lemma run_cache_fills_keeps:
  "blobs st b k = Some v \<Longrightarrow> blobs (run_cache_fills L cs st) b k = Some v"
  by (induction cs arbitrary: st) (auto simp: run_cache_fill_keeps)

text \<open>
  Claim C3.  Both durable caches write through \<open>upload_from_string\<close>, a conditional
  create.  A value stored under a key stays there through any run of later
  \<open>process_response\<close> calls of the version cache and of the extracted-file cache, whatever
  their arguments.  A call whose own key already holds a value (the loser of a race)
  returns without an exception and leaves the store as it was, when the storage service
  reports the failed precondition as it does for \<open>if_generation_match\<close>: an error entry with
  reason \<open>conditionNotMet\<close> at location \<open>If-Match\<close>, which is what \<open>upload_from_string\<close> looks
  for before it swallows the exception.
\<close>

theorem C3_cache_entries_written_once:
  assumes "blobs st bucket key = Some v"
    and "(''conditionNotMet'', ''If-Match'') \<in> set (precondition_errors st)"
  shows "blobs (run_cache_fills LOCAL_BUCKET calls st) bucket key = Some v
       \<and> (\<forall>self provider revision version.
            bucket = LOCAL_BUCKET \<and> key = versions_get_bucket_path revision \<longrightarrow>
            versions_LocalBucketProvider_process_response LOCAL_BUCKET self provider revision
              version st = (None, st))
       \<and> (\<forall>storage_suffix self provider revision filename content.
            bucket = LOCAL_BUCKET \<and> key = get_local_path storage_suffix revision filename \<longrightarrow>
            files_LocalBucketProvider_process_response LOCAL_BUCKET storage_suffix self provider
              (revision, filename) content st = (None, st))"
  using assms
  by (auto simp: run_cache_fills_keeps versions_LocalBucketProvider_process_response_def
      files_LocalBucketProvider_process_response_def upload_from_string_loser
      split: option.splits)

theorem C3_witness:
  "blobs cached_store ''local'' ''version_by_revision/abc'' = Some ''1.0.1.0''
   \<and> (''conditionNotMet'', ''If-Match'') \<in> set (precondition_errors cached_store)
   \<and> blobs (run_cache_fills ''local''
         [VersionCacheFill 1 (Some 3) ''abc'' (Some ''2.0.2.0''),
          FileCacheFill None 0 (Some 4) (''abc'', ''demo.js'') (Some ''bytes'')] cached_store)
        ''local'' ''version_by_revision/abc'' = Some ''1.0.1.0''
   \<and> versions_LocalBucketProvider_process_response ''local'' 1 (Some 3) ''abc'' (Some ''2.0.2.0'')
        cached_store = (None, cached_store)"
proof -
  have h1: "blobs cached_store ''local'' ''version_by_revision/abc'' = Some ''1.0.1.0''"
    by (simp add: cached_store_def)
  have h2: "(''conditionNotMet'', ''If-Match'') \<in> set (precondition_errors cached_store)"
    by (simp add: cached_store_def)
  note t = C3_cache_entries_written_once[OF h1 h2, of "''local''"
      "[VersionCacheFill 1 (Some 3) ''abc'' (Some ''2.0.2.0''),
        FileCacheFill None 0 (Some 4) (''abc'', ''demo.js'') (Some ''bytes'')]"]
  have k: "''version_by_revision/abc'' = versions_get_bucket_path ''abc''"
    by (simp add: versions_get_bucket_path_def)
  from t[THEN conjunct2, THEN conjunct1, rule_format, of "''abc''" 1 "Some 3" "Some ''2.0.2.0''"] k
  have c: "versions_LocalBucketProvider_process_response ''local'' 1 (Some 3) ''abc''
             (Some ''2.0.2.0'') cached_store = (None, cached_store)"
    by simp
  show ?thesis using h1 h2 t[THEN conjunct1] c by blast
qed

section \<open>Properties of the version providers\<close>

text \<open>
  What the remote providers do on the failures they handle: a read timeout, a 404, a body
  that is not base64, a VERSION file that does not match, any exception of the request
  to chromiumdash, malformed JSON.
\<close>

lemma repository_read_timeout:
  "requests_get (REPOSITORY_URL revision) = HttpRaises ReadTimeout \<Longrightarrow>
   ChromiumRepositoryProvider_retrieve b64decode requests_get revision = Inr CONTINUE_SEARCH"
  by (simp add: ChromiumRepositoryProvider_retrieve_def)

lemma repository_not_found:
  "requests_get (REPOSITORY_URL revision) = HttpResponse 404 body \<Longrightarrow>
   ChromiumRepositoryProvider_retrieve b64decode requests_get revision = Inr DOES_NOT_EXIST"
  by (simp add: ChromiumRepositoryProvider_retrieve_def)

lemma repository_not_base64:
  "requests_get (REPOSITORY_URL revision) = HttpResponse status body \<Longrightarrow> status \<noteq> 404 \<Longrightarrow>
   b64decode body = None \<Longrightarrow>
   ChromiumRepositoryProvider_retrieve b64decode requests_get revision = Inr CONTINUE_SEARCH"
  by (simp add: ChromiumRepositoryProvider_retrieve_def)

lemma repository_pattern_mismatch:
  "requests_get (REPOSITORY_URL revision) = HttpResponse status body \<Longrightarrow> status \<noteq> 404 \<Longrightarrow>
   b64decode body = Some decoded \<Longrightarrow> utf8_valid decoded \<Longrightarrow>
   VERSION_FILE_PATTERN_match decoded = None \<Longrightarrow>
   ChromiumRepositoryProvider_retrieve b64decode requests_get revision = Inr CONTINUE_SEARCH"
  by (simp add: ChromiumRepositoryProvider_retrieve_def decode_utf8_def)

lemma dash_request_exception:
  "requests_get (CHROMIUM_DASH_URL @ revision) = HttpRaises e \<Longrightarrow>
   ChromiumDashProvider_retrieve json_loads requests_get revision = Inr CONTINUE_SEARCH"
  by (simp add: ChromiumDashProvider_retrieve_def)

lemma dash_malformed_json:
  "requests_get (CHROMIUM_DASH_URL @ revision) = HttpResponse status body \<Longrightarrow>
   json_loads body = None \<Longrightarrow>
   ChromiumDashProvider_retrieve json_loads requests_get revision = Inr CONTINUE_SEARCH"
  by (simp add: ChromiumDashProvider_retrieve_def)

text \<open>
  Claim C7.  The claim says that no malformed VERSION-file content lets an exception
  leave the provider.  \<open>ChromiumRepositoryProvider.retrieve\<close> catches \<open>binascii.Error\<close> around
  \<open>base64.b64decode(response.content).decode("utf-8")\<close> but not \<open>UnicodeDecodeError\<close>: for the
  body \<open>/w==\<close>, which is the base64 form of the single byte \<open>0xFF\<close>, the call raises
  \<open>UnicodeDecodeError\<close>.
\<close>

theorem C7_repository_provider_raises_on_invalid_utf8:
  "ChromiumRepositoryProvider_retrieve
     (\<lambda>body. if body = ''/w=='' then Some [CHR 0xFF] else None)
     (\<lambda>url. HttpResponse 200 ''/w=='')
     ''1b8b78f5838ed0b1c69bb4e51ea0252171854915'' = Inl UnicodeDecodeError"
  by (simp add: ChromiumRepositoryProvider_retrieve_def decode_utf8_def utf8_valid_def)

section \<open>Properties of the legacy hash-addressed store\<close>

lemma find_file_hash_absent:
  "list_all (\<lambda>entry. case split_entry entry of None \<Rightarrow> False | Some (h, f) \<Rightarrow> f \<noteq> name) entries
   \<Longrightarrow> find_file_hash entries name = Inr None"
  by (induction entries) (auto split: option.splits)

lemma LegacyM99FilesProvider_never_denies:
  "fst (LegacyM99FilesProvider_retrieve params st) \<noteq> Inr DOES_NOT_EXIST"
  by (auto simp: LegacyM99FilesProvider_retrieve_def Let_def download_blob_def
      split: option.splits sum.splits prod.splits)

lemma legacy_manifest:
  "blobs legacy_store LEGACY_BUCKET (''meta/@'' @ ''abc'')
     = Some (''h1:demo.js'' @ [newline] @ ''h2:logo.ico'' @ [newline])"
  by (simp add: legacy_store_def)

lemma legacy_manifest_lines:
  "split_sep newline (strip [newline] (''h1:demo.js'' @ [newline] @ ''h2:logo.ico'' @ [newline]))
   = [''h1:demo.js'', ''h2:logo.ico'']"
  by (simp add: strip_def newline_def)

lemma legacy_manifest_valid:
  "utf8_valid (''h1:demo.js'' @ [newline] @ ''h2:logo.ico'' @ [newline])"
  by (simp add: utf8_valid_def newline_def)

text \<open>
  Claim C4, as the code has it.  The claim says that a manifest without an entry for the
  requested file gives \<open>DOES_NOT_EXIST\<close>.  The provider gives \<open>CONTINUE_SEARCH\<close> there (its
  log line is "Skip provider; file ... does not exist in ..." and its test expects
  \<open>CONTINUE_SEARCH\<close>), and it never gives \<open>DOES_NOT_EXIST\<close> at all.  Amended: when the
  manifest \<open>meta/@<revision>\<close> exists, is UTF-8 text, each of its lines is \<open><hash>:<filename>\<close>
  and none names the requested file, the provider returns \<open>CONTINUE_SEARCH\<close> after fetching
  the manifest only, so the search goes on to any later provider.
\<close>

theorem C4_manifest_without_entry_continues:
  assumes "blobs st LEGACY_BUCKET (''meta/@'' @ revision) = Some meta_blob"
    and "utf8_valid meta_blob"
    and "list_all (\<lambda>entry. case split_entry entry of None \<Rightarrow> False | Some (h, f) \<Rightarrow> f \<noteq> name)
           (split_sep newline (strip [newline] meta_blob))"
  shows "LegacyM99FilesProvider_retrieve (revision, name) st =
           (Inr CONTINUE_SEARCH,
            st\<lparr>downloads := downloads st @ [(LEGACY_BUCKET, ''meta/@'' @ revision)]\<rparr>)
       \<and> fst (LegacyM99FilesProvider_retrieve (revision, name) st) \<noteq> Inr DOES_NOT_EXIST"
  using assms find_file_hash_absent[OF assms(3)]
  by (simp add: LegacyM99FilesProvider_retrieve_def Let_def download_blob_def decode_utf8_def)

theorem C4_witness:
  "blobs legacy_store LEGACY_BUCKET (''meta/@'' @ ''abc'')
     = Some (''h1:demo.js'' @ [newline] @ ''h2:logo.ico'' @ [newline])
   \<and> utf8_valid (''h1:demo.js'' @ [newline] @ ''h2:logo.ico'' @ [newline])
   \<and> LegacyM99FilesProvider_retrieve (''abc'', ''other.js'') legacy_store =
           (Inr CONTINUE_SEARCH,
            legacy_store\<lparr>downloads := downloads legacy_store @ [(LEGACY_BUCKET, ''meta/@'' @ ''abc'')]\<rparr>)"
proof -
  note h2 = legacy_manifest_valid
  have h3: "list_all (\<lambda>entry. case split_entry entry of None \<Rightarrow> False | Some (h, f) \<Rightarrow> f \<noteq> ''other.js'')
           (split_sep newline (strip [newline] (''h1:demo.js'' @ [newline] @ ''h2:logo.ico'' @ [newline])))"
    by (simp add: legacy_manifest_lines split_entry_def del: append.simps)
  from C4_manifest_without_entry_continues[OF legacy_manifest h2 h3] legacy_manifest h2
  show ?thesis by blast
qed

text \<open>
  The claim fails at a manifest with entries for \<open>demo.js\<close> and \<open>logo.ico\<close> and a request for
  \<open>other.js\<close>.
\<close>

theorem C4_counterexample:
  "blobs legacy_store LEGACY_BUCKET (''meta/@'' @ ''abc'')
     = Some (''h1:demo.js'' @ [newline] @ ''h2:logo.ico'' @ [newline])
   \<and> find_file_hash (split_sep newline (strip [newline]
         (''h1:demo.js'' @ [newline] @ ''h2:logo.ico'' @ [newline]))) ''other.js'' = Inr None
   \<and> fst (LegacyM99FilesProvider_retrieve (''abc'', ''other.js'') legacy_store)
       = Inr CONTINUE_SEARCH
   \<and> fst (LegacyM99FilesProvider_retrieve (''abc'', ''other.js'') legacy_store)
       \<noteq> Inr DOES_NOT_EXIST"
  using legacy_manifest legacy_manifest_valid
  by (simp add: legacy_manifest_lines split_entry_def LegacyM99FilesProvider_retrieve_def
      Let_def download_blob_def decode_utf8_def del: append.simps)

section \<open>Properties of the archive providers\<close>

lemma blobs_downloads_update [simp]:
  "blobs (st\<lparr>downloads := d\<rparr>) = blobs st"
  by simp

lemma find_None_list_all: "list_all (\<lambda>x. \<not> P x) xs \<Longrightarrow> find P xs = None"
  by (induction xs) auto

lemma extract_loop_toc_denies:
  assumes "blobs st (local_bucketname prov) (get_zip_toc_path prov b) = Some toc"
    and "utf8_valid toc"
    and "list_all (\<lambda>p. p \<notin> set (split_sep newline (strip [newline] toc))) paths"
  shows "extract_loop prov zipfile paths filename (b # rest) st =
           (Inr DOES_NOT_EXIST,
            st\<lparr>downloads := downloads st @ [(local_bucketname prov, get_zip_toc_path prov b)]\<rparr>)"
  using assms find_None_list_all[of "\<lambda>p. p \<in> set (split_sep newline (strip [newline] toc))" paths]
  by (simp add: is_any_file_in_zip_def download_blob_def decode_utf8_def)

lemma extract_loop_skip:
  assumes "blobs st (local_bucketname prov) (get_zip_toc_path prov p) = None"
    and "blobs st (bucketname prov) p = None"
  shows "extract_loop prov zipfile paths filename (p # rest) st =
           extract_loop prov zipfile paths filename rest
             (st\<lparr>downloads := downloads st @ [(local_bucketname prov, get_zip_toc_path prov p),
                                                 (bucketname prov, p)]\<rparr>)"
  using assms
  by (simp add: is_any_file_in_zip_def download_blob_def)

lemma extract_loop_skipped_prefix:
  assumes "blobs st (local_bucketname prov) (get_zip_toc_path prov b) = Some toc"
    and "utf8_valid toc"
    and "list_all (\<lambda>p. p \<notin> set (split_sep newline (strip [newline] toc))) paths"
    and "list_all (\<lambda>p. blobs st (local_bucketname prov) (get_zip_toc_path prov p) = None
                       \<and> blobs st (bucketname prov) p = None) pre"
  shows "extract_loop prov zipfile paths filename (pre @ b # rest) st =
           (Inr DOES_NOT_EXIST,
            st\<lparr>downloads := downloads st
                 @ concat (map (\<lambda>p. [(local_bucketname prov, get_zip_toc_path prov p),
                                       (bucketname prov, p)]) pre)
                 @ [(local_bucketname prov, get_zip_toc_path prov b)]\<rparr>)"
  using assms
proof (induction pre arbitrary: st)
  case Nil
  then show ?case using extract_loop_toc_denies[of st prov b toc paths] by simp
next
  case (Cons p pre)
  let ?st = "st\<lparr>downloads := downloads st @ [(local_bucketname prov, get_zip_toc_path prov p),
                                                 (bucketname prov, p)]\<rparr>"
  have skip: "extract_loop prov zipfile paths filename ((p # pre) @ b # rest) st =
           extract_loop prov zipfile paths filename (pre @ b # rest) ?st"
    using Cons.prems(4) extract_loop_skip[of st prov p] by simp
  have "extract_loop prov zipfile paths filename (pre @ b # rest) ?st =
           (Inr DOES_NOT_EXIST,
            ?st\<lparr>downloads := downloads ?st
                 @ concat (map (\<lambda>p. [(local_bucketname prov, get_zip_toc_path prov p),
                                       (bucketname prov, p)]) pre)
                 @ [(local_bucketname prov, get_zip_toc_path prov b)]\<rparr>)"
    using Cons.prems by (intro Cons.IH) simp_all
  then show ?case unfolding skip by simp
qed


lemma toc_path_differs: "get_zip_toc_path prov b \<noteq> b"
proof
  assume "get_zip_toc_path prov b = b"
  then have "length (get_zip_toc_path prov b) = length b" by simp
  then show False by (simp add: get_zip_toc_path_def)
qed

lemma toc_store_lines:
  "split_sep newline (strip [newline] (''front_end/a.js'' @ [newline] @ ''front_end/b.js'' @ [newline]))
   = [''front_end/a.js'', ''front_end/b.js'']"
  by (simp add: strip_def newline_def)

text \<open>
  Claim C8.  When the loop of \<open>extract_from_zip_blob\<close> comes to a candidate blob \<open>b\<close> whose
  table of contents is cached (as UTF-8 text, which is how \<open>save_zip_toc\<close> writes it) and
  lists none of the candidate paths (each base directory followed by the file name), the
  call returns \<open>DOES_NOT_EXIST\<close> there.  The loop comes to \<open>b\<close> when \<open>b\<close> is the first
  candidate, and also after candidates it skips because they have neither a table of
  contents nor an archive.  The only downloads of the call are the probes of the skipped
  candidates and the table of contents of \<open>b\<close>: the archive \<open>b\<close> itself is never fetched,
  and the contents of the buckets are unchanged.
\<close>

theorem C8_cached_toc_short_circuits:
  assumes "blobs st (local_bucketname prov) (get_zip_toc_path prov b) = Some toc"
    and "utf8_valid toc"
    and "list_all (\<lambda>p. p \<notin> set (split_sep newline (strip [newline] toc)))
           (map (\<lambda>path. path @ filename) (zip_base_dirs prov))"
    and "list_all (\<lambda>p. blobs st (local_bucketname prov) (get_zip_toc_path prov p) = None
                       \<and> blobs st (bucketname prov) p = None) pre"
  shows "extract_from_zip_blob prov zipfile (pre @ b # rest) filename st =
           (Inr DOES_NOT_EXIST,
            st\<lparr>downloads := downloads st
                 @ concat (map (\<lambda>p. [(local_bucketname prov, get_zip_toc_path prov p),
                                       (bucketname prov, p)]) pre)
                 @ [(local_bucketname prov, get_zip_toc_path prov b)]\<rparr>)
       \<and> (pre = [] \<or> bucketname prov \<noteq> local_bucketname prov \<longrightarrow>
            (bucketname prov, b) \<notin> set
              (concat (map (\<lambda>p. [(local_bucketname prov, get_zip_toc_path prov p),
                                  (bucketname prov, p)]) pre)
               @ [(local_bucketname prov, get_zip_toc_path prov b)]))"
proof -
  have 1: "extract_from_zip_blob prov zipfile (pre @ b # rest) filename st =
           (Inr DOES_NOT_EXIST,
            st\<lparr>downloads := downloads st
                 @ concat (map (\<lambda>p. [(local_bucketname prov, get_zip_toc_path prov p),
                                       (bucketname prov, p)]) pre)
                 @ [(local_bucketname prov, get_zip_toc_path prov b)]\<rparr>)"
    unfolding extract_from_zip_blob_def
    by (rule extract_loop_skipped_prefix[OF assms])
  have nb: "b \<notin> set pre"
  proof
    assume "b \<in> set pre"
    then have "blobs st (local_bucketname prov) (get_zip_toc_path prov b) = None"
      using assms(4) by (simp add: list_all_iff)
    then show False using assms(1) by simp
  qed
  have 2: "(bucketname prov, b) \<notin> set
              (concat (map (\<lambda>p. [(local_bucketname prov, get_zip_toc_path prov p),
                                  (bucketname prov, p)]) pre)
               @ [(local_bucketname prov, get_zip_toc_path prov b)])"
    if "pre = [] \<or> bucketname prov \<noteq> local_bucketname prov"
    using that nb toc_path_differs[of prov b] by auto
  show ?thesis using 1 2 by blast
qed

theorem C8_witness:
  "blobs toc_store (local_bucketname archive_provider) (get_zip_toc_path archive_provider ''v2'')
     = Some (''front_end/a.js'' @ [newline] @ ''front_end/b.js'' @ [newline])
   \<and> utf8_valid (''front_end/a.js'' @ [newline] @ ''front_end/b.js'' @ [newline])
   \<and> extract_from_zip_blob archive_provider no_zipfile ([''v3''] @ ''v2'' # [''v1'']) ''c.js''
        toc_store
       = (Inr DOES_NOT_EXIST,
          toc_store\<lparr>downloads :=
             [(''local'', ''tocs/archive/v3''), (''archive'', ''v3''),
              (''local'', ''tocs/archive/v2'')]\<rparr>)"
proof -
  have h1: "blobs toc_store (local_bucketname archive_provider)
              (get_zip_toc_path archive_provider ''v2'')
     = Some (''front_end/a.js'' @ [newline] @ ''front_end/b.js'' @ [newline])"
    by (simp add: toc_store_def archive_provider_def get_zip_toc_path_def)
  have h2: "utf8_valid (''front_end/a.js'' @ [newline] @ ''front_end/b.js'' @ [newline])"
    by (simp add: utf8_valid_def newline_def)
  have h3: "list_all (\<lambda>p. p \<notin> set (split_sep newline (strip [newline]
              (''front_end/a.js'' @ [newline] @ ''front_end/b.js'' @ [newline]))))
           (map (\<lambda>path. path @ ''c.js'') (zip_base_dirs archive_provider))"
    by (simp add: toc_store_lines archive_provider_def del: append.simps)
  have h4: "list_all (\<lambda>p. blobs toc_store (local_bucketname archive_provider)
                           (get_zip_toc_path archive_provider p) = None
                       \<and> blobs toc_store (bucketname archive_provider) p = None) [''v3'']"
    by (simp add: toc_store_def archive_provider_def get_zip_toc_path_def)
  from C8_cached_toc_short_circuits[OF h1 h2 h3 h4, of no_zipfile "[''v1'']", THEN conjunct1]
  have r: "extract_from_zip_blob archive_provider no_zipfile ([''v3''] @ ''v2'' # [''v1''])
             ''c.js'' toc_store
       = (Inr DOES_NOT_EXIST,
          toc_store\<lparr>downloads :=
             [(''local'', ''tocs/archive/v3''), (''archive'', ''v3''),
              (''local'', ''tocs/archive/v2'')]\<rparr>)"
    by (simp add: toc_store_def archive_provider_def get_zip_toc_path_def)
  show ?thesis using h1 h2 r by blast
qed

section \<open>Content is found by its tag\<close>


















end
